theory Spec2Isabelle
  imports Main
begin

section \<open>Data model\<close>

text \<open>
  The two dashboards (\<^verbatim>\<open>Lab_9.py\<close>, \<^verbatim>\<open>blog_post_3_streamlit.py\<close>) load their
  tables through three cached loader functions. The loaders are embedded here together
  with the library operations they call, each modelled to the extent the loaders use it.

  Strings are Isabelle strings: lists of 8-bit characters, read as the code points 0 to
  255 of a Python \<^verbatim>\<open>str\<close>.

  Every exception a loader can raise is a value of \<open>error\<close>; a computation that may
  raise returns \<open>error + 'a\<close>, with \<open>Inl\<close> for the exception.
\<close>

datatype error =
    ConnectionError          \<comment> \<open>\<^verbatim>\<open>requests.get\<close> raised\<close>
  | BadZipFile               \<comment> \<open>the response body is not a zip archive\<close>
  | KeyError                 \<comment> \<open>a missing archive member or a missing column\<close>
  | EmptyDataError           \<comment> \<open>\<^verbatim>\<open>read_csv\<close>: no columns to parse\<close>
  | ParserError              \<comment> \<open>\<^verbatim>\<open>read_csv\<close>: expected n fields, saw more\<close>
  | LengthMismatch           \<comment> \<open>ValueError of \<^verbatim>\<open>df.columns = [...]\<close>\<close>
  | InvalidLiteral           \<comment> \<open>ValueError of \<^verbatim>\<open>int(...)\<close>\<close>
  | NoObjectsToConcatenate   \<comment> \<open>ValueError of \<^verbatim>\<open>pd.concat([])\<close>\<close>

text \<open>
  A cell of a data frame. A cell of an int64 column carries its integer. A cell of any
  other column carries the text of the field it was read from (a string under dtype
  object; the conversion of such a column to float64 or bool, and of the markers of
  missing values, is not modelled further). \<open>NaN\<close> is the cell that \<^verbatim>\<open>pd.concat\<close>
  fills in for a column that a frame does not have.
\<close>

datatype cell = Int64 int | Field string | NaN

text \<open>
  A data frame, row by row: the column labels and, for every row, one cell per column.
  The row index is not modelled: every frame of the loaders has the default index, and
  \<^verbatim>\<open>pd.concat\<close> is called with \<^verbatim>\<open>ignore_index=True\<close>.
\<close>

record 'l frame =
  columns :: "'l list"
  rows :: "cell list list"

text \<open>
  The content of an archive member is held as the sequence of records that the
  tokeniser of \<^verbatim>\<open>pd.read_csv\<close> yields from its bytes: one list of field texts for
  every line that is not blank. (Quoting and line terminators are the tokeniser's
  business: the row \<^verbatim>\<open>John,M,100\<close> is the record \<open>[''John'', ''M'', ''100'']\<close>.)

  An archive is the list of its members, name and content, in the order of the
  archive's directory.
\<close>

type_synonym content = "string list list"
type_synonym archive = "(string \<times> content) list"

section \<open>Python built-ins\<close>

text \<open>\<^verbatim>\<open>s.endswith(suffix)\<close>\<close>

definition endswith :: "string \<Rightarrow> string \<Rightarrow> bool" where
  "endswith s suffix = (take (length suffix) (rev s) = rev suffix)"

text \<open>\<^verbatim>\<open>s.startswith(prefix)\<close>\<close>

definition startswith :: "string \<Rightarrow> string \<Rightarrow> bool" where
  "startswith s prefix = (take (length prefix) s = prefix)"

text \<open>
  \<^verbatim>\<open>s[i:j]\<close> for \<open>0 \<le> i \<le> j\<close>: the characters at the indices \<open>i\<close> to \<open>j - 1\<close>
  that exist. A slice never raises: out of range it is cut short.
\<close>

definition slice :: "string \<Rightarrow> nat \<Rightarrow> nat \<Rightarrow> string" where
  "slice s i j = take (j - i) (drop i s)"

definition isdigit :: "char \<Rightarrow> bool" where
  "isdigit c = (48 \<le> (of_char c :: nat) \<and> (of_char c :: nat) \<le> 57)"

definition digit_value :: "char \<Rightarrow> nat" where
  "digit_value c = of_char c - 48"

text \<open>
  The characters that \<^verbatim>\<open>int\<close> skips around a literal: tab, line feed, vertical tab,
  form feed, carriage return, space and, beyond ASCII, the spaces NEL (0x85) and NBSP
  (0xA0).
\<close>

definition py_isspace :: "char \<Rightarrow> bool" where
  "py_isspace c = (of_char c \<in> {9::nat, 10, 11, 12, 13, 32, 133, 160})"

text \<open>
  The digits of a decimal literal after its first digit: digits, with single
  underscores between them.
\<close>

fun dec_digits :: "nat \<Rightarrow> string \<Rightarrow> nat option" where
  "dec_digits acc [] = Some acc"
| "dec_digits acc [c] = (if isdigit c then Some (10 * acc + digit_value c) else None)"
| "dec_digits acc (c # d # cs) =
     (if isdigit c then dec_digits (10 * acc + digit_value c) (d # cs)
      else if c = CHR ''_'' \<and> isdigit d then dec_digits (10 * acc + digit_value d) cs
      else None)"

definition dec_literal :: "string \<Rightarrow> nat option" where
  "dec_literal s =
     (case s of [] \<Rightarrow> None
      | c # cs \<Rightarrow> if isdigit c then dec_digits (digit_value c) cs else None)"

text \<open>
  \<^verbatim>\<open>int(s)\<close> for a string: surrounding whitespace is skipped, then an optional sign
  and a decimal literal must fill the rest; anything else raises ValueError.
\<close>

definition py_int :: "string \<Rightarrow> error + int" where
  "py_int s =
     (let p = dropWhile py_isspace s;
          neg = (case p of [] \<Rightarrow> False | c # _ \<Rightarrow> c = CHR ''-'');
          q = (case p of [] \<Rightarrow> []
               | c # cs \<Rightarrow> if c = CHR ''-'' \<or> c = CHR ''+'' then cs else p);
          body = rev (dropWhile py_isspace (rev q))
      in case dec_literal body of
           None \<Rightarrow> Inl InvalidLiteral
         | Some n \<Rightarrow> Inr (if neg then - int n else int n))"

section \<open>The zip archive\<close>

text \<open>\<^verbatim>\<open>z.namelist()\<close>: the member names, in the order of the archive's directory.\<close>

definition namelist :: "archive \<Rightarrow> string list" where
  "namelist z = map fst z"

text \<open>
  \<^verbatim>\<open>z.open(name)\<close>: the member is looked up by name; of several members with one
  name the last one is read. A name that no member has raises KeyError.
\<close>

definition zopen :: "archive \<Rightarrow> string \<Rightarrow> error + content" where
  "zopen z name = (case map_of (rev z) name of None \<Rightarrow> Inl KeyError | Some f \<Rightarrow> Inr f)"

section \<open>The data frame operations\<close>

text \<open>
  The integer conversion of the reader (\<^verbatim>\<open>str_to_int64\<close>): optional ASCII
  whitespace, an optional sign, at least one digit, optional whitespace, and a value
  in the range of int64.
\<close>

definition isspace_ascii :: "char \<Rightarrow> bool" where
  "isspace_ascii c = (of_char c \<in> {9::nat, 10, 11, 12, 13, 32})"

definition digits_value :: "string \<Rightarrow> nat" where
  "digits_value ds = foldl (\<lambda>acc c. 10 * acc + digit_value c) 0 ds"

definition str_to_int64 :: "string \<Rightarrow> int option" where
  "str_to_int64 s =
     (let p = dropWhile isspace_ascii s;
          neg = (case p of [] \<Rightarrow> False | c # _ \<Rightarrow> c = CHR ''-'');
          q = (case p of [] \<Rightarrow> []
               | c # cs \<Rightarrow> if c = CHR ''-'' \<or> c = CHR ''+'' then cs else p);
          ds = takeWhile isdigit q;
          v = (if neg then - int (digits_value ds) else int (digits_value ds))
      in if ds = [] then None
         else if dropWhile isspace_ascii (dropWhile isdigit q) \<noteq> [] then None
         else if v < - (2 ^ 63) \<or> 2 ^ 63 - 1 < v then None
         else Some v)"

text \<open>
  A record with fewer fields than the first one is filled up with empty fields, as the
  tokeniser does at the end of a short line.
\<close>

definition pad :: "nat \<Rightarrow> string list \<Rightarrow> string list" where
  "pad w r = r @ replicate (w - length r) []"

text \<open>
  Column \<open>j\<close> is an int64 column when every one of its fields converts.
\<close>

definition int64_column :: "nat \<Rightarrow> string list list \<Rightarrow> bool" where
  "int64_column j rs = list_all (\<lambda>r. str_to_int64 (r ! j) \<noteq> None) rs"

definition convert :: "bool \<Rightarrow> string \<Rightarrow> cell" where
  "convert as_int s =
     (if as_int then (case str_to_int64 s of Some v \<Rightarrow> Int64 v | None \<Rightarrow> Field s)
      else Field s)"

text \<open>
  \<^verbatim>\<open>pd.read_csv(f, header=None)\<close>. No record at all raises EmptyDataError. The
  first record fixes the number of columns; a later record with more fields raises
  ParserError, one with fewer fields is filled up. The columns are labelled
  \<open>0, 1, ...\<close>. (Every row is filled up to the width \<open>w\<close> before a field is read
  at an index below \<open>w\<close>.)
\<close>

definition read_csv :: "content \<Rightarrow> error + nat frame" where
  "read_csv f =
     (case f of
        [] \<Rightarrow> Inl EmptyDataError
      | l # ls \<Rightarrow>
          let w = length l in
          if w = 0 then Inl EmptyDataError
          else if list_ex (\<lambda>r. w < length r) ls then Inl ParserError
          else
            let padded = map (pad w) f in
            Inr \<lparr>columns = [0..<w],
                 rows = map (\<lambda>r. map (\<lambda>j. convert (int64_column j padded) (r ! j)) [0..<w])
                            padded\<rparr>)"

text \<open>
  \<^verbatim>\<open>df.columns = names\<close>: a list of another length than the frame's columns raises
  ValueError (length mismatch).
\<close>

definition set_columns :: "'a frame \<Rightarrow> 'b list \<Rightarrow> error + 'b frame" where
  "set_columns df names =
     (if length names \<noteq> length (columns df) then Inl LengthMismatch
      else Inr \<lparr>columns = names, rows = rows df\<rparr>)"

text \<open>
  \<^verbatim>\<open>df[label] = v\<close> for a scalar \<open>v\<close>: every cell of the column becomes \<open>v\<close>; a
  label the frame does not have yet is added as the last column.
\<close>

definition set_item :: "'l frame \<Rightarrow> 'l \<Rightarrow> cell \<Rightarrow> 'l frame" where
  "set_item df label v =
     (if label \<in> set (columns df)
      then df\<lparr>rows := map (\<lambda>r. map (\<lambda>(l, x). if l = label then v else x)
                                    (zip (columns df) r)) (rows df)\<rparr>
      else df\<lparr>columns := columns df @ [label], rows := map (\<lambda>r. r @ [v]) (rows df)\<rparr>)"

text \<open>
  The columns of a concatenation: every label of every frame, in the order of its
  first appearance.
\<close>

fun union_columns :: "'l list \<Rightarrow> 'l list \<Rightarrow> 'l list" where
  "union_columns seen [] = seen"
| "union_columns seen (c # cs) =
     (if c \<in> set seen then union_columns seen cs else union_columns (seen @ [c]) cs)"

text \<open>A row laid out for the columns \<open>cs\<close>: a column the frame does not have is NaN.\<close>

definition reindex :: "'l list \<Rightarrow> 'l list \<Rightarrow> cell list \<Rightarrow> cell list" where
  "reindex cs labels r =
     map (\<lambda>c. case map_of (zip labels r) c of Some x \<Rightarrow> x | None \<Rightarrow> NaN) cs"

text \<open>
  \<^verbatim>\<open>pd.concat(dfs, ignore_index=True)\<close>: an empty list raises ValueError (no
  objects to concatenate). Otherwise the rows of the frames follow one another, in the
  order of the list, under the union of the columns.
\<close>

definition pd_concat :: "'l frame list \<Rightarrow> error + 'l frame" where
  "pd_concat dfs =
     (if dfs = [] then Inl NoObjectsToConcatenate
      else
        let cs = union_columns [] (concat (map columns dfs)) in
        Inr \<lparr>columns = cs,
             rows = concat (map (\<lambda>df. map (reindex cs (columns df)) (rows df)) dfs)\<rparr>)"

section \<open>The baby-names loaders\<close>

text \<open>
  What \<^verbatim>\<open>requests.get\<close> and \<^verbatim>\<open>zipfile.ZipFile\<close> make of one request: no
  response, a body that is not a zip archive, or an archive.
\<close>

datatype reply = NoReply | NotZip | Zip archive

definition open_archive :: "reply \<Rightarrow> error + archive" where
  "open_archive r =
     (case r of NoReply \<Rightarrow> Inl ConnectionError | NotZip \<Rightarrow> Inl BadZipFile | Zip z \<Rightarrow> Inr z)"

text \<open>The body of the loop of \<^verbatim>\<open>load_national_data\<close>, for one member.\<close>

definition national_entry :: "archive \<Rightarrow> string \<Rightarrow> error + string frame" where
  "national_entry z file =
     (case zopen z file of Inl e \<Rightarrow> Inl e | Inr f \<Rightarrow>
      case read_csv f of Inl e \<Rightarrow> Inl e | Inr df \<Rightarrow>
      case set_columns df [''name'', ''sex'', ''count''] of Inl e \<Rightarrow> Inl e | Inr df1 \<Rightarrow>
      case py_int (slice file 3 7) of Inl e \<Rightarrow> Inl e | Inr y \<Rightarrow>
      Inr (set_item df1 ''year'' (Int64 y)))"

text \<open>The body of the loop of \<^verbatim>\<open>load_state_data\<close>, for one matching member.\<close>

definition state_entry :: "archive \<Rightarrow> string \<Rightarrow> error + string frame" where
  "state_entry z file =
     (case zopen z file of Inl e \<Rightarrow> Inl e | Inr f \<Rightarrow>
      case read_csv f of Inl e \<Rightarrow> Inl e | Inr df \<Rightarrow>
      set_columns df [''state'', ''sex'', ''year'', ''name'', ''count''])"

text \<open>
  The loops: the frames are appended to \<open>dfs\<close> in the order of the names; the first
  exception ends the loop.
\<close>

fun national_loop :: "archive \<Rightarrow> string list \<Rightarrow> string frame list \<Rightarrow> error + string frame list"
  where
  "national_loop z [] dfs = Inr dfs"
| "national_loop z (file # files) dfs =
     (case national_entry z file of
        Inl e \<Rightarrow> Inl e
      | Inr df \<Rightarrow> national_loop z files (dfs @ [df]))"

fun state_loop :: "archive \<Rightarrow> string list \<Rightarrow> string frame list \<Rightarrow> error + string frame list"
  where
  "state_loop z [] dfs = Inr dfs"
| "state_loop z (file # files) dfs =
     (if endswith file ''.TXT''
      then (case state_entry z file of
              Inl e \<Rightarrow> Inl e
            | Inr df \<Rightarrow> state_loop z files (dfs @ [df]))
      else state_loop z files dfs)"

text \<open>The two pipelines on an opened archive.\<close>

definition national_files :: "archive \<Rightarrow> string list" where
  "national_files z = filter (\<lambda>file. endswith file ''.txt'') (namelist z)"

definition national_frame :: "archive \<Rightarrow> error + string frame" where
  "national_frame z =
     (case national_loop z (national_files z) [] of
        Inl e \<Rightarrow> Inl e
      | Inr dfs \<Rightarrow> pd_concat dfs)"

definition state_frame :: "archive \<Rightarrow> error + string frame" where
  "state_frame z =
     (case state_loop z (namelist z) [] of
        Inl e \<Rightarrow> Inl e
      | Inr dfs \<Rightarrow> pd_concat dfs)"

text \<open>
  The bodies of \<^verbatim>\<open>load_national_data\<close> and \<^verbatim>\<open>load_state_data\<close>, given what the
  request returns.
\<close>

definition load_national_data :: "reply \<Rightarrow> error + string frame" where
  "load_national_data r = (case open_archive r of Inl e \<Rightarrow> Inl e | Inr z \<Rightarrow> national_frame z)"

definition load_state_data :: "reply \<Rightarrow> error + string frame" where
  "load_state_data r = (case open_archive r of Inl e \<Rightarrow> Inl e | Inr z \<Rightarrow> state_frame z)"

text \<open>
  The names for which the body of the loop of \<^verbatim>\<open>load_state_data\<close> runs.
\<close>

definition state_files :: "archive \<Rightarrow> string list" where
  "state_files z = filter (\<lambda>file. endswith file ''.TXT'') (namelist z)"

section \<open>The cache of the loaders\<close>

text \<open>
  Both loaders are decorated with \<^verbatim>\<open>st.cache_data\<close> and take no argument, so the
  cache has one entry per loader. A call finds the entry and returns the stored frame
  without running the body, or runs the body and stores what it returns; a body that
  raises stores nothing. The script never clears the cache and sets neither a lifetime
  nor a size limit, so an entry is never dropped. Calls are sequential, as the script
  makes them.

  The process: the entries of the cache, and the requests made so far (one per run of a
  loader's body), oldest first.
\<close>

datatype key = National | State

record process =
  cache :: "key \<Rightarrow> string frame option"
  fetched :: "key list"

definition start :: process where
  "start = \<lparr>cache = (\<lambda>k. None), fetched = []\<rparr>"

text \<open>
  The network, seen from the process: the reply to a request for a loader's URL, given
  the number of requests made before it.
\<close>

type_synonym network = "nat \<Rightarrow> key \<Rightarrow> reply"

definition load :: "key \<Rightarrow> reply \<Rightarrow> error + string frame" where
  "load k r = (case k of National \<Rightarrow> load_national_data r | State \<Rightarrow> load_state_data r)"

definition cached_load :: "network \<Rightarrow> key \<Rightarrow> process \<Rightarrow> (error + string frame) \<times> process" where
  "cached_load net k p =
     (case cache p k of
        Some data \<Rightarrow> (Inr data, p)
      | None \<Rightarrow>
          let r = net (length (fetched p)) k;
              p1 = p\<lparr>fetched := fetched p @ [k]\<rparr>
          in case load k r of
               Inl e \<Rightarrow> (Inl e, p1)
             | Inr data \<Rightarrow> (Inr data, p1\<lparr>cache := (cache p1)(k := Some data)\<rparr>))"

text \<open>A sequence of calls of the cached loaders, one after the other.\<close>

fun calls :: "network \<Rightarrow> key list \<Rightarrow> process \<Rightarrow> process" where
  "calls net [] p = p"
| "calls net (k # ks) p = calls net ks (snd (cached_load net k p))"

section \<open>The MLB loader\<close>

text \<open>
  \<^verbatim>\<open>df.loc[:, mask]\<close> for a mask over the column labels: the columns whose label
  the mask keeps.
\<close>

definition select_columns :: "'l frame \<Rightarrow> ('l \<Rightarrow> bool) \<Rightarrow> 'l frame" where
  "select_columns df keep =
     \<lparr>columns = filter keep (columns df),
      rows = map (\<lambda>r. map snd (filter (\<lambda>(l, x). keep l) (zip (columns df) r))) (rows df)\<rparr>"

text \<open>
  \<^verbatim>\<open>df[label]\<close>: the cells of a column, or KeyError. (The labels of a frame that
  \<^verbatim>\<open>pd.read_csv\<close> returns are distinct.)
\<close>

definition get_column :: "'l frame \<Rightarrow> 'l \<Rightarrow> error + cell list" where
  "get_column df label =
     (if label \<in> set (columns df)
      then Inr (map (\<lambda>r. case map_of (zip (columns df) r) label of Some x \<Rightarrow> x | None \<Rightarrow> NaN)
                    (rows df))
      else Inl KeyError)"

text \<open>\<^verbatim>\<open>df[mask]\<close> for a mask over the rows: the rows at which the mask is true.\<close>

definition filter_rows :: "'l frame \<Rightarrow> bool list \<Rightarrow> 'l frame" where
  "filter_rows df bs = df\<lparr>rows := map snd (filter fst (zip bs (rows df)))\<rparr>"

text \<open>
  \<^verbatim>\<open>load_data\<close>, given what \<^verbatim>\<open>pd.read_csv(url)\<close> returns or raises. The
  pattern \<^verbatim>\<open>^Unnamed\<close> of \<^verbatim>\<open>str.contains\<close> is found in exactly the labels that
  start with \<^verbatim>\<open>Unnamed\<close>.
\<close>

definition load_data :: "error + string frame \<Rightarrow> error + string frame" where
  "load_data csv =
     (case csv of
        Inl e \<Rightarrow> Inl e
      | Inr df \<Rightarrow>
          let df1 = select_columns df (\<lambda>c. \<not> startswith c ''Unnamed'') in
          case get_column df1 ''Team'' of
            Inl e \<Rightarrow> Inl e
          | Inr team \<Rightarrow> Inr (filter_rows df1 (map (\<lambda>x. x \<noteq> Field ''2TM'') team)))"

section \<open>Extraction of one entry\<close>

text \<open>
  C1. The national loader, on an archive whose only member is named
  \<^verbatim>\<open>abc1999.txt\<close> and holds the single row \<^verbatim>\<open>John,M,100\<close>, returns the one
  record with name John, sex M, count 100 and year 1999; the year is the integer value
  of the characters 3 to 6 of the member's name.
\<close>

theorem national_record_example:
  "load_national_data (Zip [(''abc1999.txt'', [[''John'', ''M'', ''100'']])])
     = Inr \<lparr>columns = [''name'', ''sex'', ''count'', ''year''],
            rows = [[Field ''John'', Field ''M'', Int64 100, Int64 1999]]\<rparr>
   \<and> slice ''abc1999.txt'' 3 7 = ''1999''
   \<and> py_int ''1999'' = Inr 1999"
  by code_simp

section \<open>The loops\<close>



lemma national_loop_fails:
  "file \<in> set files \<Longrightarrow> national_entry z file = Inl e \<Longrightarrow>
     \<exists>e'. national_loop z files dfs = Inl e'"
proof (induction files arbitrary: dfs)
  case Nil
  then show ?case by simp
next
  case (Cons f files)
  show ?case
  proof (cases "national_entry z f")
    case (Inl a)
    then show ?thesis by simp
  next
    case (Inr df)
    with Cons.prems have "file \<in> set files" by auto
    from Cons.IH [OF this Cons.prems(2)] show ?thesis using Inr by simp
  qed
qed

lemma state_loop_acc:
  "state_loop z files dfs =
     (case state_loop z files [] of Inl e \<Rightarrow> Inl e | Inr ds \<Rightarrow> Inr (dfs @ ds))"
proof (induction files arbitrary: dfs)
  case Nil
  show ?case by simp
next
  case (Cons f files)
  show ?case
  proof (cases "endswith f ''.TXT''")
    case False
    then show ?thesis using Cons.IH [of dfs] by simp
  next
    case True
    show ?thesis
    proof (cases "state_entry z f")
      case (Inl e)
      then show ?thesis using True by simp
    next
      case (Inr df)
      have "state_loop z (f # files) dfs = state_loop z files (dfs @ [df])"
        using Inr True by simp
      also have "\<dots> = (case state_loop z files [] of Inl e \<Rightarrow> Inl e
                         | Inr ds \<Rightarrow> Inr ((dfs @ [df]) @ ds))"
        by (rule Cons.IH)
      finally have lhs: "state_loop z (f # files) dfs =
          (case state_loop z files [] of Inl e \<Rightarrow> Inl e | Inr ds \<Rightarrow> Inr (dfs @ df # ds))"
        by (simp split: sum.split)
      have "state_loop z (f # files) [] = state_loop z files [df]"
        using Inr True by simp
      also have "\<dots> = (case state_loop z files [] of Inl e \<Rightarrow> Inl e
                         | Inr ds \<Rightarrow> Inr ([df] @ ds))"
        by (rule Cons.IH)
      finally have rhs: "state_loop z (f # files) [] =
          (case state_loop z files [] of Inl e \<Rightarrow> Inl e | Inr ds \<Rightarrow> Inr (df # ds))"
        by (simp split: sum.split)
      show ?thesis unfolding lhs rhs by (simp split: sum.splits)
    qed
  qed
qed

lemma state_loop_all:
  "map (state_entry z) (filter (\<lambda>f. endswith f ''.TXT'') files) = map Inr dfs \<Longrightarrow>
     state_loop z files [] = Inr dfs"
proof (induction files arbitrary: dfs)
  case Nil
  then show ?case by simp
next
  case (Cons f files)
  show ?case
  proof (cases "endswith f ''.TXT''")
    case False
    then show ?thesis using Cons by simp
  next
    case True
    with Cons.prems obtain df ds where dfs: "dfs = df # ds"
      and e: "state_entry z f = Inr df"
      and rest: "map (state_entry z) (filter (\<lambda>f. endswith f ''.TXT'') files) = map Inr ds"
      by (cases dfs) auto
    have "state_loop z (f # files) [] = state_loop z files [df]"
      using e True by simp
    also have "\<dots> = Inr ([df] @ ds)"
      using Cons.IH [OF rest] by (subst state_loop_acc) simp
    finally show ?thesis using dfs by simp
  qed
qed

lemma state_loop_fails:
  "f \<in> set files \<Longrightarrow> endswith f ''.TXT'' \<Longrightarrow> state_entry z f = Inl e \<Longrightarrow>
     \<exists>e'. state_loop z files dfs = Inl e'"
proof (induction files arbitrary: dfs)
  case Nil
  then show ?case by simp
next
  case (Cons g files)
  show ?case
  proof (cases "g = f")
    case True
    then show ?thesis using Cons.prems by simp
  next
    case False
    with Cons.prems have mem: "f \<in> set files" by auto
    show ?thesis
      using Cons.IH [OF mem Cons.prems(2) Cons.prems(3)]
      by (simp split: sum.split)
  qed
qed

section \<open>The frames of the entries\<close>

lemma length_pad: "length r \<le> w \<Longrightarrow> length (pad w r) = w"
  by (simp add: pad_def)

lemma read_csv_Inr:
  assumes "read_csv c = Inr df"
  shows "c \<noteq> []" and "columns df = [0..<length (hd c)]" and "length (rows df) = length c"
    and "list_all (\<lambda>r. length r = length (columns df)) (rows df)"
    and "\<not> list_ex (\<lambda>r. length (hd c) < length r) c"
  using assms
  by (auto simp: read_csv_def Let_def list_all_iff list_ex_iff split: list.splits if_splits)

lemma read_csv_Inl:
  "read_csv c = Inl e \<longleftrightarrow>
     (c = [] \<and> e = EmptyDataError) \<or>
     (c \<noteq> [] \<and> hd c = [] \<and> e = EmptyDataError) \<or>
     (c \<noteq> [] \<and> hd c \<noteq> [] \<and> list_ex (\<lambda>r. length (hd c) < length r) (tl c) \<and> e = ParserError)"
  by (auto simp: read_csv_def Let_def split: list.splits if_splits)





lemma national_entry_eq:
  assumes "zopen z f = Inr c" and "read_csv c = Inr d" and "length (columns d) = 3"
    and "py_int (slice f 3 7) = Inr y"
  shows "national_entry z f =
    Inr \<lparr>columns = [''name'', ''sex'', ''count'', ''year''],
         rows = map (\<lambda>r. r @ [Int64 y]) (rows d)\<rparr>"
  using assms by (simp add: national_entry_def set_columns_def set_item_def)



section \<open>Assembly\<close>

lemma load_national_Zip: "load_national_data (Zip z) = national_frame z"
  by (simp add: load_national_data_def open_archive_def)

lemma load_state_Zip: "load_state_data (Zip z) = state_frame z"
  by (simp add: load_state_data_def open_archive_def)




text \<open>
  C9. An archive without a member whose name has the required suffix gives no empty
  data set: the list of frames is empty, \<^verbatim>\<open>pd.concat\<close> raises, and the load fails.
\<close>

theorem no_matching_entry:
  "(national_files z = [] \<longrightarrow> load_national_data (Zip z) = Inl NoObjectsToConcatenate)
   \<and> (state_files z = [] \<longrightarrow> load_state_data (Zip z) = Inl NoObjectsToConcatenate)"
proof -
  have "state_loop z (namelist z) [] = Inr []" if "state_files z = []"
    using that state_loop_all [of z "namelist z" "[]"] by (simp add: state_files_def)
  then show ?thesis
    by (simp add: load_national_Zip load_state_Zip national_frame_def state_frame_def
        pd_concat_def)
qed


text \<open>
  Two such archives. The suffix is compared case-sensitively: \<^verbatim>\<open>YOB1999.TXT\<close> is no
  entry of the national archive, \<^verbatim>\<open>ca.txt\<close> none of the state archive.
\<close>

theorem no_matching_entry_witness:
  "national_files [(''NationalReadMe.pdf'', [[''notes'']]), (''YOB1999.TXT'', [[''A'', ''F'', ''1'']])] = []
   \<and> load_national_data
        (Zip [(''NationalReadMe.pdf'', [[''notes'']]), (''YOB1999.TXT'', [[''A'', ''F'', ''1'']])])
       = Inl NoObjectsToConcatenate
   \<and> state_files [(''ca.txt'', [[''CA'', ''F'', ''2001'', ''Mary'', ''50'']])] = []
   \<and> load_state_data (Zip [(''ca.txt'', [[''CA'', ''F'', ''2001'', ''Mary'', ''50'']])])
       = Inl NoObjectsToConcatenate"
proof -
  let ?zN = "[(''NationalReadMe.pdf'', [[''notes'']]), (''YOB1999.TXT'', [[''A'', ''F'', ''1'']])]"
  let ?zS = "[(''ca.txt'', [[''CA'', ''F'', ''2001'', ''Mary'', ''50'']])]"
  have n: "national_files ?zN = []" by code_simp
  have s: "state_files ?zS = []" by code_simp
  from no_matching_entry [of ?zN, THEN conjunct1] n
  have 1: "load_national_data (Zip ?zN) = Inl NoObjectsToConcatenate" by blast
  from no_matching_entry [of ?zS, THEN conjunct2] s
  have 2: "load_state_data (Zip ?zS) = Inl NoObjectsToConcatenate" by blast
  show ?thesis using n s 1 2 by simp
qed

section \<open>Members that are no entries\<close>

lemma map_of_filter_key:
  "P k \<Longrightarrow> map_of (filter (\<lambda>(n, c). P n) xs) k = map_of xs k"
  by (induction xs) auto

lemma zopen_filter:
  "P f \<Longrightarrow> zopen (filter (\<lambda>(n, c). P n) z) f = zopen z f"
  by (simp add: zopen_def rev_filter map_of_filter_key)

lemma namelist_filter:
  "namelist (filter (\<lambda>(n, c). P n) z) = filter P (namelist z)"
  by (induction z) (auto simp: namelist_def)

lemma national_entry_cong:
  "zopen z f = zopen z' f \<Longrightarrow> national_entry z f = national_entry z' f"
  by (simp add: national_entry_def)

lemma state_entry_cong:
  "zopen z f = zopen z' f \<Longrightarrow> state_entry z f = state_entry z' f"
  by (simp add: state_entry_def)

lemma national_loop_cong:
  "list_all (\<lambda>f. zopen z f = zopen z' f) files \<Longrightarrow>
     national_loop z files dfs = national_loop z' files dfs"
proof (induction files arbitrary: dfs)
  case Nil
  show ?case by simp
next
  case (Cons f files)
  then have "zopen z f = zopen z' f" by simp
  then have "national_entry z f = national_entry z' f"
    by (rule national_entry_cong)
  then show ?case using Cons by (simp split: sum.split)
qed

lemma state_loop_cong:
  "list_all (\<lambda>f. endswith f ''.TXT'' \<longrightarrow> zopen z f = zopen z' f) files \<Longrightarrow>
     state_loop z files dfs = state_loop z' files dfs"
proof (induction files arbitrary: dfs)
  case Nil
  show ?case by simp
next
  case (Cons f files)
  show ?case
  proof (cases "endswith f ''.TXT''")
    case True
    with Cons.prems have "zopen z f = zopen z' f" by simp
    then have "state_entry z f = state_entry z' f"
      by (rule state_entry_cong)
    then show ?thesis using Cons True by (simp split: sum.split)
  next
    case False
    then show ?thesis using Cons by simp
  qed
qed

lemma state_loop_filter:
  "state_loop z (filter (\<lambda>f. endswith f ''.TXT'') files) dfs = state_loop z files dfs"
  by (induction files arbitrary: dfs) (auto split: sum.split)

text \<open>
  C4. A member whose name does not end in the suffix of the loader (\<^verbatim>\<open>.txt\<close> for
  the national archive, \<^verbatim>\<open>.TXT\<close> for the state archive, compared case-sensitively)
  has no part in the result: the loader returns for an archive what it returns for the
  archive without these members, be it a data set or an error. Such a member adds no
  row and raises nothing, whatever it holds.
\<close>

theorem other_entries_skipped:
  "load_national_data (Zip z) =
     load_national_data (Zip (filter (\<lambda>(name, f). endswith name ''.txt'') z))
   \<and> load_state_data (Zip z) =
     load_state_data (Zip (filter (\<lambda>(name, f). endswith name ''.TXT'') z))"
proof -
  let ?n = "filter (\<lambda>(name, f). endswith name ''.txt'') z"
  let ?s = "filter (\<lambda>(name, f). endswith name ''.TXT'') z"
  have nf: "national_files ?n = national_files z"
    by (simp add: national_files_def namelist_filter)
  have "list_all (\<lambda>f. zopen z f = zopen ?n f) (national_files z)"
    by (simp add: list_all_iff national_files_def zopen_filter)
  then have "national_loop z (national_files z) [] = national_loop ?n (national_files z) []"
    by (rule national_loop_cong)
  then have 1: "national_frame z = national_frame ?n"
    by (simp add: national_frame_def nf)
  have "list_all (\<lambda>f. endswith f ''.TXT'' \<longrightarrow> zopen z f = zopen ?s f) (namelist z)"
    by (simp add: list_all_iff zopen_filter)
  then have "state_loop z (namelist z) [] = state_loop ?s (namelist z) []"
    by (rule state_loop_cong)
  also have "\<dots> = state_loop ?s (namelist ?s) []"
    by (simp add: namelist_filter state_loop_filter)
  finally have 2: "state_frame z = state_frame ?s"
    by (simp add: state_frame_def)
  show ?thesis using 1 2 by (simp add: load_national_Zip load_state_Zip)
qed

text \<open>
  An archive with one entry and one other member, for each loader: the data set holds
  the rows of the entry only. The other member of the national archive,
  \<^verbatim>\<open>YOB2000.TXT\<close>, differs from an entry in the case of its suffix alone, and its
  row of two fields would not pass as an entry.
\<close>

theorem other_entries_skipped_witness:
  "load_national_data (Zip [(''yob1999.txt'', [[''John'', ''M'', ''100'']]),
                            (''YOB2000.TXT'', [[''only'', ''two'']])])
     = Inr \<lparr>columns = [''name'', ''sex'', ''count'', ''year''],
            rows = [[Field ''John'', Field ''M'', Int64 100, Int64 1999]]\<rparr>
   \<and> load_state_data (Zip [(''StateReadMe.pdf'', []),
                          (''CA.TXT'', [[''CA'', ''F'', ''2001'', ''Mary'', ''50'']])])
     = Inr \<lparr>columns = [''state'', ''sex'', ''year'', ''name'', ''count''],
            rows = [[Field ''CA'', Field ''F'', Int64 2001, Field ''Mary'', Int64 50]]\<rparr>"
proof -
  let ?zN = "[(''yob1999.txt'', [[''John'', ''M'', ''100'']]),
              (''YOB2000.TXT'', [[''only'', ''two'']])]"
  let ?zS = "[(''StateReadMe.pdf'', []),
              (''CA.TXT'', [[''CA'', ''F'', ''2001'', ''Mary'', ''50'']])]"
  have fn: "filter (\<lambda>(name, f). endswith name ''.txt'') ?zN
              = [(''yob1999.txt'', [[''John'', ''M'', ''100'']])]"
    by (simp add: endswith_def)
  have fs: "filter (\<lambda>(name, f). endswith name ''.TXT'') ?zS
              = [(''CA.TXT'', [[''CA'', ''F'', ''2001'', ''Mary'', ''50'']])]"
    by (simp add: endswith_def)
  have n1: "load_national_data (Zip [(''yob1999.txt'', [[''John'', ''M'', ''100'']])])
     = Inr \<lparr>columns = [''name'', ''sex'', ''count'', ''year''],
            rows = [[Field ''John'', Field ''M'', Int64 100, Int64 1999]]\<rparr>"
    by code_simp
  have s1: "load_state_data (Zip [(''CA.TXT'', [[''CA'', ''F'', ''2001'', ''Mary'', ''50'']])])
     = Inr \<lparr>columns = [''state'', ''sex'', ''year'', ''name'', ''count''],
            rows = [[Field ''CA'', Field ''F'', Int64 2001, Field ''Mary'', Int64 50]]\<rparr>"
    by code_simp
  from other_entries_skipped [of ?zN, THEN conjunct1]
  have 1: "load_national_data (Zip ?zN)
     = Inr \<lparr>columns = [''name'', ''sex'', ''count'', ''year''],
            rows = [[Field ''John'', Field ''M'', Int64 100, Int64 1999]]\<rparr>"
    unfolding fn n1 .
  from other_entries_skipped [of ?zS, THEN conjunct2]
  have 2: "load_state_data (Zip ?zS)
     = Inr \<lparr>columns = [''state'', ''sex'', ''year'', ''name'', ''count''],
            rows = [[Field ''CA'', Field ''F'', Int64 2001, Field ''Mary'', Int64 50]]\<rparr>"
    unfolding fs s1 .
  show ?thesis using 1 2 by simp
qed

section \<open>Failing entries\<close>

lemma national_frame_fails:
  "f \<in> set (national_files z) \<Longrightarrow> national_entry z f = Inl e \<Longrightarrow>
     \<exists>e'. load_national_data (Zip z) = Inl e'"
  using national_loop_fails [of f "national_files z" z e "[]"]
  by (auto simp: load_national_Zip national_frame_def)

lemma state_frame_fails:
  "f \<in> set (state_files z) \<Longrightarrow> state_entry z f = Inl e \<Longrightarrow>
     \<exists>e'. load_state_data (Zip z) = Inl e'"
  using state_loop_fails [of f "namelist z" z e "[]"]
  by (auto simp: load_state_Zip state_frame_def state_files_def)

lemma read_csv_width:
  assumes "read_csv c = Inr d" and "list_ex (\<lambda>r. n < length r) c \<or> (c \<noteq> [] \<and> length (hd c) < n)"
  shows "length (columns d) \<noteq> n"
proof -
  have w: "length (columns d) = length (hd c)"
    using read_csv_Inr(2) [OF assms(1)] by simp
  have le: "\<not> list_ex (\<lambda>r. length (hd c) < length r) c"
    using assms(1) by (rule read_csv_Inr(5))
  from assms(2) show ?thesis
  proof
    assume "list_ex (\<lambda>r. n < length r) c"
    then obtain r where r: "r \<in> set c" "n < length r" by (auto simp: list_ex_iff)
    with le have "length r \<le> length (hd c)" by (auto simp: list_ex_iff)
    with r w show ?thesis by simp
  next
    assume "c \<noteq> [] \<and> length (hd c) < n"
    with w show ?thesis by simp
  qed
qed

lemma national_entry_width:
  assumes "zopen z f = Inr c" and "\<And>d. read_csv c = Inr d \<Longrightarrow> length (columns d) \<noteq> 3"
  shows "\<exists>e. national_entry z f = Inl e"
proof (cases "read_csv c")
  case (Inl e)
  then show ?thesis using assms(1) by (simp add: national_entry_def)
next
  case (Inr d)
  then have "length (columns d) \<noteq> 3" by (rule assms(2))
  then show ?thesis using assms(1) Inr by (simp add: national_entry_def set_columns_def)
qed

lemma state_entry_width:
  assumes "zopen z f = Inr c" and "\<And>d. read_csv c = Inr d \<Longrightarrow> length (columns d) \<noteq> 5"
  shows "\<exists>e. state_entry z f = Inl e"
proof (cases "read_csv c")
  case (Inl e)
  then show ?thesis using assms(1) by (simp add: state_entry_def)
next
  case (Inr d)
  then have "length (columns d) \<noteq> 5" by (rule assms(2))
  then show ?thesis using assms(1) Inr by (simp add: state_entry_def set_columns_def)
qed

text \<open>
  C5, as amended. If a matching entry has a row with more fields than the schema
  (3 for the national, 5 for the state archive), or a first row with fewer, the
  extraction of that entry fails and the whole load fails: the loader returns an error
  and no data set, neither one without the bad row nor one of the other entries.
\<close>

theorem malformed_rows_fail:
  "(f \<in> set (national_files z) \<and> zopen z f = Inr c \<and>
      (list_ex (\<lambda>r. 3 < length r) c \<or> (c \<noteq> [] \<and> length (hd c) < 3)) \<longrightarrow>
      (\<exists>e. national_entry z f = Inl e) \<and> (\<exists>e. load_national_data (Zip z) = Inl e))
   \<and> (f \<in> set (state_files z) \<and> zopen z f = Inr c \<and>
      (list_ex (\<lambda>r. 5 < length r) c \<or> (c \<noteq> [] \<and> length (hd c) < 5)) \<longrightarrow>
      (\<exists>e. state_entry z f = Inl e) \<and> (\<exists>e. load_state_data (Zip z) = Inl e))"
proof (intro conjI impI)
  assume a: "f \<in> set (national_files z) \<and> zopen z f = Inr c \<and>
      (list_ex (\<lambda>r. 3 < length r) c \<or> (c \<noteq> [] \<and> length (hd c) < 3))"
  then have "\<And>d. read_csv c = Inr d \<Longrightarrow> length (columns d) \<noteq> 3"
    using read_csv_width by blast
  with a show e: "\<exists>e. national_entry z f = Inl e"
    using national_entry_width by blast
  with a show "\<exists>e. load_national_data (Zip z) = Inl e"
    using national_frame_fails by blast
next
  assume a: "f \<in> set (state_files z) \<and> zopen z f = Inr c \<and>
      (list_ex (\<lambda>r. 5 < length r) c \<or> (c \<noteq> [] \<and> length (hd c) < 5))"
  then have "\<And>d. read_csv c = Inr d \<Longrightarrow> length (columns d) \<noteq> 5"
    using read_csv_width by blast
  with a show e: "\<exists>e. state_entry z f = Inl e"
    using state_entry_width by blast
  with a show "\<exists>e. load_state_data (Zip z) = Inl e"
    using state_frame_fails by blast
qed

text \<open>
  C6. If two matching entries of one archive are read as frames with different column
  sets, the whole load fails with an error; no combined data set is returned. (The
  error is raised when the column names are assigned to the frame whose number of
  columns is not the schema's, or earlier.)
\<close>

theorem mismatched_entries_fail:
  "(f1 \<in> set (national_files z) \<and> f2 \<in> set (national_files z) \<and>
      zopen z f1 = Inr c1 \<and> zopen z f2 = Inr c2 \<and>
      read_csv c1 = Inr d1 \<and> read_csv c2 = Inr d2 \<and> set (columns d1) \<noteq> set (columns d2) \<longrightarrow>
      (\<exists>e. load_national_data (Zip z) = Inl e))
   \<and> (f1 \<in> set (state_files z) \<and> f2 \<in> set (state_files z) \<and>
      zopen z f1 = Inr c1 \<and> zopen z f2 = Inr c2 \<and>
      read_csv c1 = Inr d1 \<and> read_csv c2 = Inr d2 \<and> set (columns d1) \<noteq> set (columns d2) \<longrightarrow>
      (\<exists>e. load_state_data (Zip z) = Inl e))"
proof (intro conjI impI)
  assume a: "f1 \<in> set (national_files z) \<and> f2 \<in> set (national_files z) \<and>
      zopen z f1 = Inr c1 \<and> zopen z f2 = Inr c2 \<and>
      read_csv c1 = Inr d1 \<and> read_csv c2 = Inr d2 \<and> set (columns d1) \<noteq> set (columns d2)"
  then have "columns d1 = [0..<length (hd c1)]" "columns d2 = [0..<length (hd c2)]"
    using read_csv_Inr(2) by blast+
  with a have "length (columns d1) \<noteq> length (columns d2)" by auto
  then consider "length (columns d1) \<noteq> 3" | "length (columns d2) \<noteq> 3" by linarith
  then show "\<exists>e. load_national_data (Zip z) = Inl e"
  proof cases
    case 1
    with a have "\<exists>e. national_entry z f1 = Inl e"
      by (intro national_entry_width [of z f1 c1]) auto
    with a show ?thesis using national_frame_fails by blast
  next
    case 2
    with a have "\<exists>e. national_entry z f2 = Inl e"
      by (intro national_entry_width [of z f2 c2]) auto
    with a show ?thesis using national_frame_fails by blast
  qed
next
  assume a: "f1 \<in> set (state_files z) \<and> f2 \<in> set (state_files z) \<and>
      zopen z f1 = Inr c1 \<and> zopen z f2 = Inr c2 \<and>
      read_csv c1 = Inr d1 \<and> read_csv c2 = Inr d2 \<and> set (columns d1) \<noteq> set (columns d2)"
  then have "columns d1 = [0..<length (hd c1)]" "columns d2 = [0..<length (hd c2)]"
    using read_csv_Inr(2) by blast+
  with a have "length (columns d1) \<noteq> length (columns d2)" by auto
  then consider "length (columns d1) \<noteq> 5" | "length (columns d2) \<noteq> 5" by linarith
  then show "\<exists>e. load_state_data (Zip z) = Inl e"
  proof cases
    case 1
    with a have "\<exists>e. state_entry z f1 = Inl e"
      by (intro state_entry_width [of z f1 c1]) auto
    with a show ?thesis using state_frame_fails by blast
  next
    case 2
    with a have "\<exists>e. state_entry z f2 = Inl e"
      by (intro state_entry_width [of z f2 c2]) auto
    with a show ?thesis using state_frame_fails by blast
  qed
qed

text \<open>
  The claim C5 as it stands fails for a short row after the first: the reader fills the
  row up with empty fields, and the load succeeds with the row in the data set.
\<close>

theorem short_row_kept:
  "list_ex (\<lambda>r. length r \<noteq> 3) [[''John'', ''M'', ''100''], [''Mary'', ''F'']]
   \<and> load_national_data (Zip [(''yob1999.txt'', [[''John'', ''M'', ''100''], [''Mary'', ''F'']])])
     = Inr \<lparr>columns = [''name'', ''sex'', ''count'', ''year''],
            rows = [[Field ''John'', Field ''M'', Field ''100'', Int64 1999],
                    [Field ''Mary'', Field ''F'', Field [], Int64 1999]]\<rparr>
   \<and> list_ex (\<lambda>r. length r \<noteq> 5)
        [[''CA'', ''F'', ''2001'', ''Mary'', ''50''], [''CA'', ''F'', ''2001'', ''Ann'']]
   \<and> load_state_data (Zip [(''CA.TXT'', [[''CA'', ''F'', ''2001'', ''Mary'', ''50''],
                                        [''CA'', ''F'', ''2001'', ''Ann'']])])
     = Inr \<lparr>columns = [''state'', ''sex'', ''year'', ''name'', ''count''],
            rows = [[Field ''CA'', Field ''F'', Int64 2001, Field ''Mary'', Field ''50''],
                    [Field ''CA'', Field ''F'', Int64 2001, Field ''Ann'', Field []]]\<rparr>"
  by code_simp

text \<open>
  A national entry with a row of four fields after an entry that is well-formed, and a
  state entry whose first row has four fields.
\<close>

theorem malformed_rows_fail_witness:
  "(\<exists>e. national_entry [(''yob1998.txt'', [[''Al'', ''M'', ''7'']]),
                         (''yob1999.txt'', [[''John'', ''M'', ''100''], [''Mary'', ''F'', ''90'', ''x'']])]
                        ''yob1999.txt'' = Inl e)
   \<and> (\<exists>e. load_national_data
            (Zip [(''yob1998.txt'', [[''Al'', ''M'', ''7'']]),
                  (''yob1999.txt'', [[''John'', ''M'', ''100''], [''Mary'', ''F'', ''90'', ''x'']])])
          = Inl e)
   \<and> (\<exists>e. state_entry [(''CA.TXT'', [[''CA'', ''F'', ''2001'', ''Mary'']])] ''CA.TXT'' = Inl e)
   \<and> (\<exists>e. load_state_data (Zip [(''CA.TXT'', [[''CA'', ''F'', ''2001'', ''Mary'']])]) = Inl e)"
proof -
  let ?cN = "[[''John'', ''M'', ''100''], [''Mary'', ''F'', ''90'', ''x'']]"
  let ?zN = "[(''yob1998.txt'', [[''Al'', ''M'', ''7'']]), (''yob1999.txt'', ?cN)]"
  let ?cS = "[[''CA'', ''F'', ''2001'', ''Mary'']]"
  let ?zS = "[(''CA.TXT'', ?cS)]"
  have n: "''yob1999.txt'' \<in> set (national_files ?zN) \<and> zopen ?zN ''yob1999.txt'' = Inr ?cN \<and>
      (list_ex (\<lambda>r. 3 < length r) ?cN \<or> (?cN \<noteq> [] \<and> length (hd ?cN) < 3))"
    by code_simp
  have s: "''CA.TXT'' \<in> set (state_files ?zS) \<and> zopen ?zS ''CA.TXT'' = Inr ?cS \<and>
      (list_ex (\<lambda>r. 5 < length r) ?cS \<or> (?cS \<noteq> [] \<and> length (hd ?cS) < 5))"
    by code_simp
  from malformed_rows_fail [of "''yob1999.txt''" ?zN ?cN, THEN conjunct1] n
  have 1: "(\<exists>e. national_entry ?zN ''yob1999.txt'' = Inl e) \<and>
           (\<exists>e. load_national_data (Zip ?zN) = Inl e)"
    by blast
  from malformed_rows_fail [of "''CA.TXT''" ?zS ?cS, THEN conjunct2] s
  have 2: "(\<exists>e. state_entry ?zS ''CA.TXT'' = Inl e) \<and> (\<exists>e. load_state_data (Zip ?zS) = Inl e)"
    by blast
  show ?thesis using 1 2 by blast
qed

text \<open>
  Two entries read as frames of three and four columns, and of five and four columns.
\<close>

theorem mismatched_entries_fail_witness:
  "(\<exists>e. load_national_data
            (Zip [(''yob1999.txt'', [[''John'', ''M'', ''100'']]),
                  (''yob2000.txt'', [[''John'', ''M'', ''100'', ''x'']])]) = Inl e)
   \<and> (\<exists>e. load_state_data
            (Zip [(''CA.TXT'', [[''CA'', ''F'', ''2001'', ''Mary'', ''50'']]),
                  (''NY.TXT'', [[''NY'', ''F'', ''2001'', ''Mary'']])]) = Inl e)"
proof -
  let ?c1 = "[[''John'', ''M'', ''100'']]"
  let ?c2 = "[[''John'', ''M'', ''100'', ''x'']]"
  let ?zN = "[(''yob1999.txt'', ?c1), (''yob2000.txt'', ?c2)]"
  let ?d1 = "\<lparr>columns = [0, 1, 2::nat], rows = [[Field ''John'', Field ''M'', Int64 100]]\<rparr>"
  let ?d2 = "\<lparr>columns = [0, 1, 2, 3::nat],
              rows = [[Field ''John'', Field ''M'', Int64 100, Field ''x'']]\<rparr>"
  let ?s1 = "[[''CA'', ''F'', ''2001'', ''Mary'', ''50'']]"
  let ?s2 = "[[''NY'', ''F'', ''2001'', ''Mary'']]"
  let ?zS = "[(''CA.TXT'', ?s1), (''NY.TXT'', ?s2)]"
  let ?e1 = "\<lparr>columns = [0, 1, 2, 3, 4::nat],
              rows = [[Field ''CA'', Field ''F'', Int64 2001, Field ''Mary'', Int64 50]]\<rparr>"
  let ?e2 = "\<lparr>columns = [0, 1, 2, 3::nat],
              rows = [[Field ''NY'', Field ''F'', Int64 2001, Field ''Mary'']]\<rparr>"
  have n: "''yob1999.txt'' \<in> set (national_files ?zN) \<and> ''yob2000.txt'' \<in> set (national_files ?zN)
      \<and> zopen ?zN ''yob1999.txt'' = Inr ?c1 \<and> zopen ?zN ''yob2000.txt'' = Inr ?c2
      \<and> read_csv ?c1 = Inr ?d1 \<and> read_csv ?c2 = Inr ?d2"
    by code_simp
  have "(3::nat) \<notin> set (columns ?d1)" and "(3::nat) \<in> set (columns ?d2)"
    by simp_all
  then have nd: "set (columns ?d1) \<noteq> set (columns ?d2)" by metis
  have s: "''CA.TXT'' \<in> set (state_files ?zS) \<and> ''NY.TXT'' \<in> set (state_files ?zS)
      \<and> zopen ?zS ''CA.TXT'' = Inr ?s1 \<and> zopen ?zS ''NY.TXT'' = Inr ?s2
      \<and> read_csv ?s1 = Inr ?e1 \<and> read_csv ?s2 = Inr ?e2"
    by code_simp
  have "(4::nat) \<in> set (columns ?e1)" and "(4::nat) \<notin> set (columns ?e2)"
    by simp_all
  then have sd: "set (columns ?e1) \<noteq> set (columns ?e2)" by metis
  from mismatched_entries_fail
         [of "''yob1999.txt''" ?zN "''yob2000.txt''" ?c1 ?c2 ?d1 ?d2, THEN conjunct1] n nd
  have 1: "\<exists>e. load_national_data (Zip ?zN) = Inl e" by blast
  from mismatched_entries_fail
         [of "''CA.TXT''" ?zS "''NY.TXT''" ?s1 ?s2 ?e1 ?e2, THEN conjunct2] s sd
  have 2: "\<exists>e. load_state_data (Zip ?zS) = Inl e" by blast
  show ?thesis using 1 2 by blast
qed

section \<open>The cached loaders\<close>

lemma cached_hit: "cache p k = Some d \<Longrightarrow> cached_load net k p = (Inr d, p)"
  by (simp add: cached_load_def)

lemma cached_success:
  "fst (cached_load net k p) = Inr d \<Longrightarrow> cache (snd (cached_load net k p)) k = Some d"
  by (auto simp: cached_load_def Let_def split: option.splits sum.splits)

lemma cached_kept:
  "cache p k = Some d \<Longrightarrow> cache (snd (cached_load net k' p)) k = Some d"
  by (auto simp: cached_load_def Let_def split: option.splits sum.splits)

lemma cached_fetched:
  "cache p k = Some d \<Longrightarrow>
     filter (\<lambda>x. x = k) (fetched (snd (cached_load net k' p))) = filter (\<lambda>x. x = k) (fetched p)"
  by (auto simp: cached_load_def Let_def split: option.splits sum.splits)

lemma calls_kept: "cache p k = Some d \<Longrightarrow> cache (calls net ks p) k = Some d"
  by (induction ks arbitrary: p) (simp_all add: cached_kept)

lemma calls_fetched:
  "cache p k = Some d \<Longrightarrow>
     filter (\<lambda>x. x = k) (fetched (calls net ks p)) = filter (\<lambda>x. x = k) (fetched p)"
proof (induction ks arbitrary: p)
  case Nil
  show ?case by simp
next
  case (Cons k' ks)
  have "cache (snd (cached_load net k' p)) k = Some d"
    using Cons.prems by (rule cached_kept)
  then have "filter (\<lambda>x. x = k) (fetched (calls net ks (snd (cached_load net k' p))))
      = filter (\<lambda>x. x = k) (fetched (snd (cached_load net k' p)))"
    by (rule Cons.IH)
  then show ?case using cached_fetched [OF Cons.prems] by simp
qed

lemma calls_same_key:
  "cache p k = Some d \<Longrightarrow> calls net (replicate n k) p = p"
  by (induction n) (simp_all add: cached_hit)

lemma first_calls:
  "k1 \<noteq> k2 \<Longrightarrow> fetched (calls net [k1, k2] start) = [k1, k2]"
  by (auto simp: cached_load_def start_def Let_def split: option.splits sum.splits)

text \<open>
  C3. Once a call of a cached loader has returned a data set, every further call of
  that loader leaves the process as it is (no request is made), and no later call of
  either loader adds a request for that loader's URL. In a process whose first call of
  a loader succeeds, exactly one request for its URL is ever made. The first calls of
  the two loaders, in either order, make exactly two requests, one for each.
\<close>

theorem fetched_once:
  "(fst (cached_load net k p) = Inr d \<longrightarrow>
      calls net (replicate n k) (snd (cached_load net k p)) = snd (cached_load net k p)
      \<and> filter (\<lambda>x. x = k) (fetched (calls net ks (snd (cached_load net k p))))
          = filter (\<lambda>x. x = k) (fetched (snd (cached_load net k p))))
   \<and> (fst (cached_load net k start) = Inr d \<longrightarrow>
      filter (\<lambda>x. x = k) (fetched (calls net (k # ks) start)) = [k])
   \<and> fetched (calls net [National, State] start) = [National, State]
   \<and> fetched (calls net [State, National] start) = [State, National]"
proof (intro conjI impI)
  assume a: "fst (cached_load net k p) = Inr d"
  then have c: "cache (snd (cached_load net k p)) k = Some d" by (rule cached_success)
  from c show "calls net (replicate n k) (snd (cached_load net k p)) = snd (cached_load net k p)"
    by (rule calls_same_key)
  from c show "filter (\<lambda>x. x = k) (fetched (calls net ks (snd (cached_load net k p))))
          = filter (\<lambda>x. x = k) (fetched (snd (cached_load net k p)))"
    by (rule calls_fetched)
next
  assume a: "fst (cached_load net k start) = Inr d"
  then have c: "cache (snd (cached_load net k start)) k = Some d" by (rule cached_success)
  have "fetched (snd (cached_load net k start)) = [k]"
    by (auto simp: cached_load_def start_def Let_def split: option.splits sum.splits)
  then show "filter (\<lambda>x. x = k) (fetched (calls net (k # ks) start)) = [k]"
    using calls_fetched [OF c, of net ks] by simp
next
  show "fetched (calls net [National, State] start) = [National, State]"
    by (rule first_calls) simp
  show "fetched (calls net [State, National] start) = [State, National]"
    by (rule first_calls) simp
qed

text \<open>
  C7. Once a call of a cached loader has returned a data set, every later call of that
  loader returns the same data set (the same rows, with the same cells, in the same
  order), whatever calls were made in between and whatever the network would reply.
\<close>

theorem cached_result_stable:
  "fst (cached_load net k p) = Inr d \<longrightarrow>
     fst (cached_load net k (calls net ks (snd (cached_load net k p)))) = Inr d"
proof
  assume "fst (cached_load net k p) = Inr d"
  then have "cache (snd (cached_load net k p)) k = Some d" by (rule cached_success)
  then have "cache (calls net ks (snd (cached_load net k p))) k = Some d" by (rule calls_kept)
  then show "fst (cached_load net k (calls net ks (snd (cached_load net k p)))) = Inr d"
    by (simp add: cached_hit)
qed

text \<open>
  A network that replies to the first request only: after the first call of the
  national loader, three more calls make no further request for its archive.
\<close>

theorem fetched_once_witness:
  "filter (\<lambda>x. x = National)
     (fetched (calls (\<lambda>n k. if n = 0 then Zip [(''yob1999.txt'', [[''John'', ''M'', ''100'']])]
                              else NoReply)
                [National, State, National, National] start)) = [National]"
proof -
  let ?net = "\<lambda>(n::nat) (k::key). if n = 0 then Zip [(''yob1999.txt'', [[''John'', ''M'', ''100'']])]
                              else NoReply"
  let ?d = "\<lparr>columns = [''name'', ''sex'', ''count'', ''year''],
             rows = [[Field ''John'', Field ''M'', Int64 100, Int64 1999]]\<rparr>"
  have "load National (?net 0 National) = Inr ?d"
    by code_simp
  then have h: "fst (cached_load ?net National start) = Inr ?d"
    by (simp add: cached_load_def start_def)
  from fetched_once [of ?net National start ?d 0 "[State, National, National]",
      THEN conjunct2, THEN conjunct1] h
  show ?thesis by blast
qed

text \<open>
  On the same network a later call returns the data set of the first call, although a
  new request would fail.
\<close>

theorem cached_result_stable_witness:
  "fst (cached_load (\<lambda>n k. if n = 0 then Zip [(''yob1999.txt'', [[''John'', ''M'', ''100'']])]
                             else NoReply) National
         (calls (\<lambda>n k. if n = 0 then Zip [(''yob1999.txt'', [[''John'', ''M'', ''100'']])]
                        else NoReply) [State, National]
            (snd (cached_load (\<lambda>n k. if n = 0
                                then Zip [(''yob1999.txt'', [[''John'', ''M'', ''100'']])]
                                else NoReply) National start))))
     = Inr \<lparr>columns = [''name'', ''sex'', ''count'', ''year''],
            rows = [[Field ''John'', Field ''M'', Int64 100, Int64 1999]]\<rparr>"
proof -
  let ?net = "\<lambda>(n::nat) (k::key). if n = 0 then Zip [(''yob1999.txt'', [[''John'', ''M'', ''100'']])]
                              else NoReply"
  let ?d = "\<lparr>columns = [''name'', ''sex'', ''count'', ''year''],
             rows = [[Field ''John'', Field ''M'', Int64 100, Int64 1999]]\<rparr>"
  have "load National (?net 0 National) = Inr ?d"
    by code_simp
  then have h: "fst (cached_load ?net National start) = Inr ?d"
    by (simp add: cached_load_def start_def)
  from cached_result_stable [of ?net National start ?d "[State, National]"] h
  show ?thesis by blast
qed

section \<open>The year of a national entry\<close>

lemma py_int_error: "py_int s = Inl e \<Longrightarrow> e = InvalidLiteral"
  by (auto simp: py_int_def Let_def split: option.splits)

lemma endswith_append:
  assumes "endswith s suffix"
  shows "\<exists>pre. s = pre @ suffix"
proof -
  from assms have "take (length suffix) (rev s) = rev suffix"
    by (simp add: endswith_def)
  then have "rev s = rev suffix @ drop (length suffix) (rev s)"
    by (metis append_take_drop_id)
  then have "rev (rev s) = rev (rev suffix @ drop (length suffix) (rev s))"
    by simp
  then have "s = rev (drop (length suffix) (rev s)) @ suffix"
    by simp
  then show ?thesis by blast
qed

lemma short_name_slice:
  assumes "endswith file ''.txt''" and "length file < 7"
  shows "slice file 3 7 \<in> {''t'', ''xt'', ''txt''}"
proof -
  from assms(1) obtain pre where f: "file = pre @ ''.txt''"
    using endswith_append by blast
  with assms(2) have "length pre < 3" by simp
  then consider "pre = []" | a where "pre = [a]" | a b where "pre = [a, b]"
    by (cases pre rule: list.exhaust; cases "tl pre"; cases "tl (tl pre)") auto
  then show ?thesis
    by cases (simp_all add: f slice_def)
qed

lemma short_name_year:
  assumes "endswith file ''.txt''" and "length file < 7"
  shows "py_int (slice file 3 7) = Inl InvalidLiteral"
proof -
  have "py_int ''t'' = Inl InvalidLiteral" "py_int ''xt'' = Inl InvalidLiteral"
    "py_int ''txt'' = Inl InvalidLiteral"
    by code_simp+
  then show ?thesis using short_name_slice [OF assms] by auto
qed

text \<open>
  C8. For a member name that ends in \<^verbatim>\<open>.txt\<close>, the slice of the characters 3 to 6
  is defined for every length of the name: it holds the characters of that range that
  exist, at most four. The year can fail in one way only, the ValueError of \<^verbatim>\<open>int\<close>
  on the slice; a name shorter than seven characters always fails so, since its slice
  ends in the \<^verbatim>\<open>t\<close> of the suffix. Whenever the slice is an integer literal, of a
  year or not, the entry is extracted without error and each of its rows carries that
  integer as its year.
\<close>

theorem year_derivation:
  "endswith file ''.txt'' \<longrightarrow>
     length (slice file 3 7) = min 4 (length file - 3)
     \<and> (\<forall>e. py_int (slice file 3 7) = Inl e \<longrightarrow> e = InvalidLiteral)
     \<and> (length file < 7 \<longrightarrow> py_int (slice file 3 7) = Inl InvalidLiteral)
     \<and> (\<forall>y c d. py_int (slice file 3 7) = Inr y \<and> zopen z file = Inr c \<and>
           read_csv c = Inr d \<and> length (columns d) = 3 \<longrightarrow>
           national_entry z file =
             Inr \<lparr>columns = [''name'', ''sex'', ''count'', ''year''],
                  rows = map (\<lambda>r. r @ [Int64 y]) (rows d)\<rparr>)"
proof (intro impI conjI allI)
  show "length (slice file 3 7) = min 4 (length file - 3)"
    by (simp add: slice_def)
next
  fix e assume "py_int (slice file 3 7) = Inl e"
  then show "e = InvalidLiteral" by (rule py_int_error)
next
  assume "endswith file ''.txt''" and "length file < 7"
  then show "py_int (slice file 3 7) = Inl InvalidLiteral" by (rule short_name_year)
next
  fix y c d
  assume "py_int (slice file 3 7) = Inr y \<and> zopen z file = Inr c \<and>
           read_csv c = Inr d \<and> length (columns d) = 3"
  then show "national_entry z file =
             Inr \<lparr>columns = [''name'', ''sex'', ''count'', ''year''],
                  rows = map (\<lambda>r. r @ [Int64 y]) (rows d)\<rparr>"
    by (simp add: national_entry_eq)
qed

text \<open>
  The name \<^verbatim>\<open>ab19990.txt\<close> has its year one character early: the entry is
  extracted with the year 9990. The name \<^verbatim>\<open>ab.txt\<close> is shorter than the range:
  its slice is \<^verbatim>\<open>txt\<close>, and the integer conversion fails.
\<close>

theorem year_derivation_witness:
  "national_entry [(''ab19990.txt'', [[''John'', ''M'', ''100'']])] ''ab19990.txt''
     = Inr \<lparr>columns = [''name'', ''sex'', ''count'', ''year''],
            rows = [[Field ''John'', Field ''M'', Int64 100, Int64 9990]]\<rparr>
   \<and> slice ''ab.txt'' 3 7 = ''txt''
   \<and> py_int (slice ''ab.txt'' 3 7) = Inl InvalidLiteral"
proof -
  let ?f = "''ab19990.txt''"
  let ?c = "[[''John'', ''M'', ''100'']]"
  let ?z = "[(?f, ?c)]"
  let ?d = "\<lparr>columns = [0, 1, 2::nat], rows = [[Field ''John'', Field ''M'', Int64 100]]\<rparr>"
  have e: "endswith ?f ''.txt''" by code_simp
  have h: "py_int (slice ?f 3 7) = Inr 9990 \<and> zopen ?z ?f = Inr ?c \<and>
           read_csv ?c = Inr ?d \<and> length (columns ?d) = 3"
    by code_simp
  from year_derivation [of ?f ?z] e h
  have "national_entry ?z ?f =
      Inr \<lparr>columns = [''name'', ''sex'', ''count'', ''year''],
           rows = map (\<lambda>r. r @ [Int64 9990]) (rows ?d)\<rparr>"
    by blast
  then have 1: "national_entry ?z ?f =
      Inr \<lparr>columns = [''name'', ''sex'', ''count'', ''year''],
           rows = [[Field ''John'', Field ''M'', Int64 100, Int64 9990]]\<rparr>"
    by simp
  have e2: "endswith ''ab.txt'' ''.txt''" by code_simp
  have l2: "length ''ab.txt'' < 7" by simp
  from year_derivation [of "''ab.txt''" "[]"] e2 l2
  have 2: "py_int (slice ''ab.txt'' 3 7) = Inl InvalidLiteral" by blast
  have 3: "slice ''ab.txt'' 3 7 = ''txt''" by code_simp
  show ?thesis using 1 2 3 by simp
qed

section \<open>The table of the MLB loader\<close>

lemma filter_by_mask: "map snd (filter fst (zip (map f xs) xs)) = filter f xs"
  by (induction xs) auto

lemma select_columns_row:
  "length r = length cs \<Longrightarrow>
     length (filter (\<lambda>(l, x). keep l) (zip cs r)) = length (filter keep cs)"
proof (induction cs arbitrary: r)
  case Nil
  then show ?case by simp
next
  case (Cons c cs)
  then obtain x xs where r: "r = x # xs" and "length xs = length cs"
    by (cases r) auto
  with Cons.IH [of xs] show ?case by simp
qed

lemma map_of_zip_Some:
  "length r = length cs \<Longrightarrow> c \<in> set cs \<Longrightarrow> \<exists>x. map_of (zip cs r) c = Some x"
  by (metis map_of_zip_is_Some not_None_eq)

text \<open>
  C10. Of a table that \<^verbatim>\<open>load_data\<close> returns (read from a frame with distinct
  labels and one cell per column in every row), every row has a Team cell, and it is
  not the string \<^verbatim>\<open>2TM\<close>; and no column label of the table starts with
  \<^verbatim>\<open>Unnamed\<close>.
\<close>

theorem team_rows:
  "load_data (Inr df) = Inr out \<and> distinct (columns df) \<and>
     list_all (\<lambda>r. length r = length (columns df)) (rows df) \<longrightarrow>
     list_all (\<lambda>r. case map_of (zip (columns out) r) ''Team'' of
                      Some x \<Rightarrow> x \<noteq> Field ''2TM'' | None \<Rightarrow> False) (rows out)
     \<and> list_all (\<lambda>c. \<not> startswith c ''Unnamed'') (columns out)"
proof (intro impI)
  assume a: "load_data (Inr df) = Inr out \<and> distinct (columns df) \<and>
     list_all (\<lambda>r. length r = length (columns df)) (rows df)"
  let ?keep = "\<lambda>c. \<not> startswith c ''Unnamed''"
  let ?df1 = "select_columns df ?keep"
  let ?cell = "\<lambda>r. case map_of (zip (columns ?df1) r) ''Team'' of Some x \<Rightarrow> x | None \<Rightarrow> NaN"
  from a have team: "''Team'' \<in> set (columns ?df1)"
    by (auto simp: load_data_def Let_def get_column_def split: if_splits)
  from a team have out: "out = filter_rows ?df1 (map (\<lambda>x. x \<noteq> Field ''2TM'') (map ?cell (rows ?df1)))"
    by (simp add: load_data_def Let_def get_column_def)
  have cols: "columns out = columns ?df1"
    unfolding out by (simp add: filter_rows_def)
  have "rows out = map snd (filter fst (zip (map (\<lambda>r. ?cell r \<noteq> Field ''2TM'') (rows ?df1))
                                          (rows ?df1)))"
    unfolding out by (simp add: filter_rows_def comp_def)
  then have rws: "rows out = filter (\<lambda>r. ?cell r \<noteq> Field ''2TM'') (rows ?df1)"
    by (simp only: filter_by_mask)
  have wf: "length r = length (columns ?df1)" if "r \<in> set (rows ?df1)" for r
  proof -
    from that obtain r0 where r0: "r0 \<in> set (rows df)"
      and r: "r = map snd (filter (\<lambda>(l, x). ?keep l) (zip (columns df) r0))"
      by (auto simp: select_columns_def)
    from a r0 have "length r0 = length (columns df)" by (auto simp: list_all_iff)
    then show ?thesis unfolding r by (simp add: select_columns_row select_columns_def)
  qed
  have 1: "list_all (\<lambda>r. case map_of (zip (columns out) r) ''Team'' of
                      Some x \<Rightarrow> x \<noteq> Field ''2TM'' | None \<Rightarrow> False) (rows out)"
    unfolding list_all_iff
  proof
    fix r assume "r \<in> set (rows out)"
    then have r: "r \<in> set (rows ?df1)" and ne: "?cell r \<noteq> Field ''2TM''"
      unfolding rws by auto
    have "\<exists>x. map_of (zip (columns ?df1) r) ''Team'' = Some x"
      using wf [OF r] team by (rule map_of_zip_Some)
    then obtain x where "map_of (zip (columns ?df1) r) ''Team'' = Some x" ..
    with ne show "case map_of (zip (columns out) r) ''Team'' of
                      Some x \<Rightarrow> x \<noteq> Field ''2TM'' | None \<Rightarrow> False"
      unfolding cols by simp
  qed
  have 2: "list_all (\<lambda>c. \<not> startswith c ''Unnamed'') (columns out)"
    unfolding cols by (simp add: select_columns_def list_all_iff)
  show "list_all (\<lambda>r. case map_of (zip (columns out) r) ''Team'' of
                      Some x \<Rightarrow> x \<noteq> Field ''2TM'' | None \<Rightarrow> False) (rows out)
     \<and> list_all (\<lambda>c. \<not> startswith c ''Unnamed'') (columns out)"
    using 1 2 by simp
qed

text \<open>
  A frame with an unnamed first column and a player of two teams: the table keeps the
  named columns and the two players of one team.
\<close>

theorem team_rows_witness:
  "load_data (Inr \<lparr>columns = [''Unnamed: 0'', ''Player'', ''Team'', ''HR''],
                   rows = [[Int64 0, Field ''Judge'', Field ''NYY'', Int64 58],
                           [Int64 1, Field ''Soler'', Field ''2TM'', Int64 21],
                           [Int64 2, Field ''Devers'', Field ''BOS'', Int64 28]]\<rparr>)
     = Inr \<lparr>columns = [''Player'', ''Team'', ''HR''],
            rows = [[Field ''Judge'', Field ''NYY'', Int64 58],
                    [Field ''Devers'', Field ''BOS'', Int64 28]]\<rparr>
   \<and> list_all (\<lambda>r. case map_of (zip [''Player'', ''Team'', ''HR''] r) ''Team'' of
                      Some x \<Rightarrow> x \<noteq> Field ''2TM'' | None \<Rightarrow> False)
        [[Field ''Judge'', Field ''NYY'', Int64 58], [Field ''Devers'', Field ''BOS'', Int64 28]]
   \<and> list_all (\<lambda>c. \<not> startswith c ''Unnamed'') [''Player'', ''Team'', ''HR'']"
proof -
  let ?df = "\<lparr>columns = [''Unnamed: 0'', ''Player'', ''Team'', ''HR''],
              rows = [[Int64 0, Field ''Judge'', Field ''NYY'', Int64 58],
                      [Int64 1, Field ''Soler'', Field ''2TM'', Int64 21],
                      [Int64 2, Field ''Devers'', Field ''BOS'', Int64 28]]\<rparr>"
  let ?out = "\<lparr>columns = [''Player'', ''Team'', ''HR''],
               rows = [[Field ''Judge'', Field ''NYY'', Int64 58],
                       [Field ''Devers'', Field ''BOS'', Int64 28]]\<rparr>"
  have h: "load_data (Inr ?df) = Inr ?out \<and> distinct (columns ?df) \<and>
     list_all (\<lambda>r. length r = length (columns ?df)) (rows ?df)"
    by code_simp
  from team_rows [of ?df ?out] h
  have "list_all (\<lambda>r. case map_of (zip (columns ?out) r) ''Team'' of
                      Some x \<Rightarrow> x \<noteq> Field ''2TM'' | None \<Rightarrow> False) (rows ?out)
     \<and> list_all (\<lambda>c. \<not> startswith c ''Unnamed'') (columns ?out)"
    by blast
  then show ?thesis using h by simp
qed

end
